theory Spec2Isabelle
  imports Complex_Main "HOL-Library.List_Lexorder" "HOL-Library.Multiset"
begin

section \<open>Data model (the dashboard's type declarations)\<close>

text \<open>
  The interfaces \<^verbatim>\<open>IntentGroup\<close>, \<^verbatim>\<open>ActionObjectGroup\<close>, \<^verbatim>\<open>IntentRecord\<close>,
  \<^verbatim>\<open>DirectoryNode\<close> and \<^verbatim>\<open>SitemapSummary\<close>. A field declared with \<^verbatim>\<open>?\<close> or
  \<^verbatim>\<open>| null\<close> is an \<open>option\<close>; a \<^verbatim>\<open>number\<close> that holds a count is an \<open>int\<close>, a
  percentage a \<open>real\<close>. Strings are \<open>string\<close>. Field names that several interfaces
  share are written with the interface's name in front where needed.
\<close>

record IntentGroup =
  intent_category :: string
  url_count :: int
  sample_urls :: "string list"

record ActionObjectGroup =
  action :: string
  object :: string
  url_count :: int
  sample_urls :: "string list"

record IntentRecord =
  url :: string
  path :: string
  depth :: "int option"
  slug_tokens :: "string list option"
  action :: string
  object :: string
  scene :: "string option"
  intent_category :: string
  "notes" :: "string option"
  lastmod :: "string option"
  title :: "string option"
  is_new :: "bool option"

datatype DirectoryNode =
  DirectoryNode (name: string) (path: string) (count: int)
    (children: "DirectoryNode list") (records: "IntentRecord list")

record SitemapSummary =
  schema_version :: string
  by_intent_category :: "IntentGroup list"
  by_action_object :: "ActionObjectGroup list"
  total_urls :: int
  coverage_strict_percentage :: real
  coverage_any_percentage :: real
  directory_tree :: DirectoryNode

datatype ViewMode = Structure | Intent | Media

datatype SortMode = Name | Date | Count

datatype error = TypeError

section \<open>page.tsx: collecting the records of a tree\<close>

text \<open>
  \<^verbatim>\<open>getAllRecords\<close>: a copy of the node's own records, to which the loop over
  \<^verbatim>\<open>node.children\<close> appends each child's collected records in turn.
\<close>

fun getAllRecords :: "DirectoryNode \<Rightarrow> IntentRecord list" where
  "getAllRecords (DirectoryNode n p c cs rs) =
     foldl (\<lambda>acc child. acc @ getAllRecords child) rs cs"

section \<open>Host functions of the JavaScript runtime\<close>

text \<open>
  \<^verbatim>\<open>String.prototype.toLowerCase\<close> and \<^verbatim>\<open>String.prototype.includes\<close>. The case
  mapping is written out for the ASCII letters; every other character is left as it is.
\<close>

definition toLowerChar :: "char \<Rightarrow> char" where
  "toLowerChar c =
     (case map_of (zip ''ABCDEFGHIJKLMNOPQRSTUVWXYZ'' ''abcdefghijklmnopqrstuvwxyz'') c of
        None \<Rightarrow> c
      | Some l \<Rightarrow> l)"

definition toLowerCase :: "string \<Rightarrow> string" where
  "toLowerCase s = map toLowerChar s"

fun startsWith :: "string \<Rightarrow> string \<Rightarrow> bool" where
  "startsWith s [] = True"
| "startsWith [] (c # p) = False"
| "startsWith (a # s) (c # p) = (a = c \<and> startsWith s p)"

fun "includes" :: "string \<Rightarrow> string \<Rightarrow> bool" where
  "includes [] p = startsWith [] p"
| "includes (a # s) p = (startsWith (a # s) p \<or> includes s p)"

text \<open>
  \<^verbatim>\<open>Array.prototype.sort(compareFn)\<close>. The sort is stable, and for a consistent
  comparator its result is the one list that is a stable rearrangement of the input
  into comparator order: \<open>a\<close> comes before \<open>b\<close> when \<open>compareFn a b < 0\<close>, and elements
  that compare as \<open>0\<close> keep their input order. The functions below compute that list.
\<close>

fun insertSorted :: "('a \<Rightarrow> 'a \<Rightarrow> int) \<Rightarrow> 'a \<Rightarrow> 'a list \<Rightarrow> 'a list" where
  "insertSorted compareFn a [] = [a]"
| "insertSorted compareFn a (b # bs) =
     (if compareFn a b \<le> 0 then a # b # bs else b # insertSorted compareFn a bs)"

fun arraySort :: "('a \<Rightarrow> 'a \<Rightarrow> int) \<Rightarrow> 'a list \<Rightarrow> 'a list" where
  "arraySort compareFn [] = []"
| "arraySort compareFn (a # as) = insertSorted compareFn a (arraySort compareFn as)"

text \<open>
  \<^verbatim>\<open>String.prototype.localeCompare\<close> is the host's collation and depends on its
  locale data, so the functions of \<^verbatim>\<open>page.tsx\<close> that call it take it as the
  parameter \<open>lc\<close>. A \<open>collation\<close> is a comparator that is total and transitive, which
  every host collation is.
\<close>

definition collation :: "(string \<Rightarrow> string \<Rightarrow> int) \<Rightarrow> bool" where
  "collation lc \<longleftrightarrow>
     (\<forall>a b. lc a b \<le> 0 \<or> lc b a \<le> 0) \<and>
     (\<forall>a b c. lc a b \<le> 0 \<longrightarrow> lc b c \<le> 0 \<longrightarrow> lc a c \<le> 0)"

text \<open>
  For evaluation at concrete inputs, \<open>localeCompare\<close> is the default collation
  (root locale, sensitivity \<^verbatim>\<open>variant\<close>) on strings of ASCII letters: the letters are
  compared first without regard to case, and strings with the same letters are then
  ordered by case, lower case before upper case at the first difference. It is
  evaluated below at strings of ASCII letters only; on other characters it orders by
  character code, which is not meant to follow any host.
\<close>

definition primaryKey :: "string \<Rightarrow> nat list" where
  "primaryKey s = map (\<lambda>c. of_char (toLowerChar c)) s"

definition tertiaryKey :: "string \<Rightarrow> nat list" where
  "tertiaryKey s = map (\<lambda>c. if toLowerChar c = c then 0 else 1) s"

definition localeCompare :: "string \<Rightarrow> string \<Rightarrow> int" where
  "localeCompare a b =
     (if primaryKey a < primaryKey b then - 1
      else if primaryKey b < primaryKey a then 1
      else if tertiaryKey a < tertiaryKey b then - 1
      else if tertiaryKey b < tertiaryKey a then 1
      else 0)"

text \<open>
  An object literal \<^verbatim>\<open>{}\<close> used as a dictionary. Its own properties are an
  association list in creation order. A lookup \<^verbatim>\<open>groups[key]\<close> that finds no own
  property continues in \<^verbatim>\<open>Object.prototype\<close>, whose property names are
  \<open>objectPrototypeKeys\<close>; each of them holds a function, or for \<^verbatim>\<open>__proto__\<close> the
  prototype object, so the value found is truthy and has no \<^verbatim>\<open>push\<close> method.
\<close>

definition objectPrototypeKeys :: "string list" where
  "objectPrototypeKeys =
     [''constructor'', ''__defineGetter__'', ''__defineSetter__'', ''hasOwnProperty'',
      ''__lookupGetter__'', ''__lookupSetter__'', ''isPrototypeOf'',
      ''propertyIsEnumerable'', ''toString'', ''valueOf'', ''__proto__'',
      ''toLocaleString'']"

text \<open>
  \<^verbatim>\<open>Object.entries\<close> lists the own properties whose names are array indices (the
  canonical decimal form of an integer below \<open>2^32 - 1\<close>) first, in ascending numeric
  order, and then the other properties in creation order.
\<close>

definition digitValue :: "char \<Rightarrow> nat option" where
  "digitValue c =
     (let n = (of_char c :: nat) in if 48 \<le> n \<and> n \<le> 57 then Some (n - 48) else None)"

fun decimalValue :: "nat \<Rightarrow> string \<Rightarrow> nat option" where
  "decimalValue acc [] = Some acc"
| "decimalValue acc (c # cs) =
     (case digitValue c of None \<Rightarrow> None | Some d \<Rightarrow> decimalValue (10 * acc + d) cs)"

definition arrayIndex :: "string \<Rightarrow> nat option" where
  "arrayIndex s =
     (case s of
        [] \<Rightarrow> None
      | c # cs \<Rightarrow>
          if c = CHR ''0'' \<and> cs \<noteq> [] then None
          else (case decimalValue 0 s of
                  None \<Rightarrow> None
                | Some n \<Rightarrow> if n < 2 ^ 32 - 1 then Some n else None))"

definition indexOrZero :: "string \<Rightarrow> nat" where
  "indexOrZero s = (case arrayIndex s of None \<Rightarrow> 0 | Some n \<Rightarrow> n)"

definition objectEntries :: "(string \<times> 'v) list \<Rightarrow> (string \<times> 'v) list" where
  "objectEntries obj =
     sort_key (\<lambda>e. indexOrZero (fst e)) (filter (\<lambda>e. arrayIndex (fst e) \<noteq> None) obj)
     @ filter (\<lambda>e. arrayIndex (fst e) = None) obj"

section \<open>page.tsx: grouping records into a flat tree\<close>

type_synonym groups = "(string \<times> IntentRecord list) list"

text \<open>
  \<^verbatim>\<open>keyFn(rec) || "Uncategorized"\<close>: a key function yields \<open>None\<close> when the value is
  missing (\<^verbatim>\<open>undefined\<close> or \<^verbatim>\<open>null\<close>); that and the empty string are falsy.
\<close>

definition groupKey :: "(IntentRecord \<Rightarrow> string option) \<Rightarrow> IntentRecord \<Rightarrow> string" where
  "groupKey keyFn rec =
     (case keyFn rec of
        None \<Rightarrow> ''Uncategorized''
      | Some k \<Rightarrow> if k = [] then ''Uncategorized'' else k)"

text \<open>\<^verbatim>\<open>groups[key].push(rec)\<close> on an own property, or \<^verbatim>\<open>groups[key] = []\<close> first.\<close>

fun pushTo :: "string \<Rightarrow> IntentRecord \<Rightarrow> groups \<Rightarrow> groups" where
  "pushTo key rec [] = [(key, [rec])]"
| "pushTo key rec ((k, rs) # g) =
     (if k = key then (k, rs @ [rec]) # g else (k, rs) # pushTo key rec g)"

text \<open>
  One round of the loop body. With no own property \<open>key\<close> and \<open>key\<close> a property name of
  \<^verbatim>\<open>Object.prototype\<close>, \<^verbatim>\<open>!groups[key]\<close> is false, nothing is created, and the call
  of \<^verbatim>\<open>push\<close> on the inherited value raises a \<^verbatim>\<open>TypeError\<close>.
\<close>

definition addToGroup :: "groups \<Rightarrow> string \<Rightarrow> IntentRecord \<Rightarrow> error + groups" where
  "addToGroup g key rec =
     (case map_of g key of
        Some rs \<Rightarrow> Inr (pushTo key rec g)
      | None \<Rightarrow>
          if key \<in> set objectPrototypeKeys then Inl TypeError
          else Inr (pushTo key rec g))"

fun collectGroups ::
  "(IntentRecord \<Rightarrow> string option) \<Rightarrow> IntentRecord list \<Rightarrow> groups \<Rightarrow> error + groups" where
  "collectGroups keyFn [] g = Inr g"
| "collectGroups keyFn (rec # rest) g =
     (case addToGroup g (groupKey keyFn rec) rec of
        Inl e \<Rightarrow> Inl e
      | Inr g' \<Rightarrow> collectGroups keyFn rest g')"

definition orEmpty :: "string option \<Rightarrow> string" where
  "orEmpty v = (case v of None \<Rightarrow> [] | Some s \<Rightarrow> s)"

definition titleOrUrl :: "IntentRecord \<Rightarrow> string" where
  "titleOrUrl r = (if orEmpty (title r) = [] then url r else orEmpty (title r))"

definition compareRecords ::
  "(string \<Rightarrow> string \<Rightarrow> int) \<Rightarrow> SortMode \<Rightarrow> IntentRecord \<Rightarrow> IntentRecord \<Rightarrow> int" where
  "compareRecords lc sortMode a b =
     (if sortMode = Date then lc (orEmpty (lastmod b)) (orEmpty (lastmod a))
      else lc (titleOrUrl a) (titleOrUrl b))"

definition compareGroups ::
  "(string \<Rightarrow> string \<Rightarrow> int) \<Rightarrow> SortMode \<Rightarrow> DirectoryNode \<Rightarrow> DirectoryNode \<Rightarrow> int" where
  "compareGroups lc sortMode a b =
     (if sortMode = Count then count b - count a
      else if sortMode = Date then count b - count a
      else lc (name a) (name b))"

definition groupNode ::
  "(string \<Rightarrow> string \<Rightarrow> int) \<Rightarrow> SortMode \<Rightarrow> string \<times> IntentRecord list \<Rightarrow> DirectoryNode" where
  "groupNode lc sortMode e =
     DirectoryNode (fst e) (''/'' @ fst e) (int (length (snd e))) []
       (arraySort (compareRecords lc sortMode) (snd e))"

definition groupRecords ::
  "(string \<Rightarrow> string \<Rightarrow> int) \<Rightarrow> IntentRecord list \<Rightarrow> (IntentRecord \<Rightarrow> string option) \<Rightarrow>
     SortMode \<Rightarrow> error + DirectoryNode" where
  "groupRecords lc recs keyFn sortMode =
     (case collectGroups keyFn recs [] of
        Inl e \<Rightarrow> Inl e
      | Inr g \<Rightarrow>
          Inr (DirectoryNode ''Root'' ''/'' (int (length recs))
                 (arraySort (compareGroups lc sortMode)
                    (map (groupNode lc sortMode) (objectEntries g)))
                 []))"

section \<open>page.tsx: the dashboard's derived values\<close>

definition baseRecords :: "SitemapSummary \<Rightarrow> IntentRecord list" where
  "baseRecords data = getAllRecords (directory_tree data)"

definition virtualRoot ::
  "(string \<Rightarrow> string \<Rightarrow> int) \<Rightarrow> SitemapSummary \<Rightarrow> string \<Rightarrow> ViewMode \<Rightarrow> SortMode \<Rightarrow>
     error + DirectoryNode" where
  "virtualRoot lc data activeSite viewMode sortMode =
     (case viewMode of
        Structure \<Rightarrow>
          (case directory_tree data of
             DirectoryNode n p c cs rs \<Rightarrow> Inr (DirectoryNode activeSite p c cs rs))
      | Intent \<Rightarrow>
          groupRecords lc (baseRecords data)
            (\<lambda>r. Some (IntentRecord.intent_category r)) sortMode
      | Media \<Rightarrow>
          groupRecords lc (baseRecords data) (\<lambda>r. Some (IntentRecord.object r)) sortMode)"

text \<open>
  \<^verbatim>\<open>currentNode\<close>: the loop over \<^verbatim>\<open>navigationPath\<close>, with \<^verbatim>\<open>current\<close> as the loop
  variable and \<open>vroot\<close> the virtual root it started from; \<^verbatim>\<open>find\<close> yields the first child with the segment's name.
\<close>

fun navigate :: "DirectoryNode \<Rightarrow> DirectoryNode \<Rightarrow> string list \<Rightarrow> DirectoryNode" where
  "navigate vroot current [] = current"
| "navigate vroot current (segment # rest) =
     (case find (\<lambda>c. name c = segment) (children current) of
        Some child \<Rightarrow> navigate vroot child rest
      | None \<Rightarrow> vroot)"

definition currentNode :: "DirectoryNode \<Rightarrow> string list \<Rightarrow> DirectoryNode" where
  "currentNode vroot navigationPath = navigate vroot vroot navigationPath"

definition newUrlCount :: "SitemapSummary \<Rightarrow> nat" where
  "newUrlCount data = length (filter (\<lambda>r. is_new r = Some True) (baseRecords data))"

section \<open>NodeDetails.tsx: the displayed records\<close>

definition COMMON_PAGE_PATTERNS :: "string list" where
  "COMMON_PAGE_PATTERNS =
     [''login'', ''signup'', ''signin'', ''register'', ''cart'', ''account'',
      ''reset-password'', ''contact'', ''pricing'', ''legal'', ''policy'', ''terms'',
      ''about'', ''support'', ''faq'', ''help'', ''careers'', ''jobs'', ''status'',
      ''feed'', ''rss'', ''atom'', ''sitemap'']"

definition isNoise :: "string \<Rightarrow> bool" where
  "isNoise nm = (let lower = toLowerCase nm in list_ex (\<lambda>p. includes lower p) COMMON_PAGE_PATTERNS)"

definition hideCommonDefault :: bool where
  "hideCommonDefault = True"

definition searchQueryDefault :: string where
  "searchQueryDefault = []"

definition keepRecord :: "bool \<Rightarrow> string \<Rightarrow> IntentRecord \<Rightarrow> bool" where
  "keepRecord hideCommon searchQuery r =
     (if hideCommon \<and> isNoise (IntentRecord.path r) then False
      else if searchQuery \<noteq> [] then
        (let q = toLowerCase searchQuery in
           includes (toLowerCase (IntentRecord.path r)) q \<or>
           includes (toLowerCase (orEmpty (title r))) q \<or>
           includes (toLowerCase (IntentRecord.action r)) q \<or>
           includes (toLowerCase (IntentRecord.object r)) q)
      else True)"

definition filteredRecords :: "DirectoryNode \<Rightarrow> bool \<Rightarrow> string \<Rightarrow> IntentRecord list" where
  "filteredRecords node hideCommon searchQuery =
     filter (keepRecord hideCommon searchQuery) (records node)"

section \<open>Properties the specification speaks of\<close>

text \<open>
  The count invariant of a tree: at every node, \<open>count\<close> is the number of the node's
  own records plus the sum of its children's counts.
\<close>

fun countInvariant :: "DirectoryNode \<Rightarrow> bool" where
  "countInvariant (DirectoryNode n p c cs rs) =
     (c = int (length rs) + sum_list (map count cs) \<and> list_all countInvariant cs)"

text \<open>The number of records flagged \<^verbatim>\<open>is_new\<close> anywhere in a tree, node by node.\<close>

fun newInTree :: "DirectoryNode \<Rightarrow> nat" where
  "newInTree (DirectoryNode n p c cs rs) =
     length (filter (\<lambda>r. is_new r = Some True) rs) + sum_list (map newInTree cs)"

text \<open>
  The node a path leads to: each segment in turn names a child of the node reached so
  far (the first child of that name); \<open>None\<close> when some segment names no child.
\<close>

fun descendant :: "DirectoryNode \<Rightarrow> string list \<Rightarrow> DirectoryNode option" where
  "descendant node [] = Some node"
| "descendant node (segment # rest) =
     (case find (\<lambda>c. name c = segment) (children node) of
        None \<Rightarrow> None
      | Some child \<Rightarrow> descendant child rest)"

section \<open>Sample data\<close>

definition sampleRecord :: "string \<Rightarrow> string \<Rightarrow> IntentRecord" where
  "sampleRecord u c =
     \<lparr>url = u, path = ''/'' @ u, depth = None, slug_tokens = None, action = ''unknown'',
      object = ''unknown'', scene = None, intent_category = c, notes = None,
      lastmod = None, title = None, is_new = None\<rparr>"

definition sampleTree :: DirectoryNode where
  "sampleTree =
     DirectoryNode ''Root'' ''/'' 3
       [DirectoryNode ''tools'' ''/tools'' 2
          [DirectoryNode ''edit'' ''/tools/edit'' 1 []
             [(sampleRecord ''e'' ''x'')\<lparr>is_new := Some True\<rparr>]]
          [sampleRecord ''t'' ''y''],
        DirectoryNode ''blog'' ''/blog'' 0 [] []]
       [sampleRecord ''r'' ''x'']"

definition sampleNode :: DirectoryNode where
  "sampleNode =
     DirectoryNode ''docs'' ''/docs'' 2 []
       [sampleRecord ''userlogin'' ''x'', sampleRecord ''upscale'' ''y'']"

text \<open>The records of the own property \<open>k\<close> of a \<open>groups\<close> object, none when there is no such property.\<close>

definition groupOf :: "groups \<Rightarrow> string \<Rightarrow> IntentRecord list" where
  "groupOf g k = (case map_of g k of None \<Rightarrow> [] | Some rs \<Rightarrow> rs)"

text \<open>The distinct elements of a list, in the order in which each occurs first.\<close>

function firstOccurrences :: "'a list \<Rightarrow> 'a list" where
  "firstOccurrences [] = []"
| "firstOccurrences (x # xs) = x # firstOccurrences (filter (\<lambda>y. y \<noteq> x) xs)"
  by pat_completeness auto
termination
  by (relation "measure length") (auto simp: less_Suc_eq_le)

definition sampleSummary :: "DirectoryNode \<Rightarrow> SitemapSummary" where
  "sampleSummary tree =
     \<lparr>schema_version = ''1'', by_intent_category = [], by_action_object = [],
      total_urls = count tree, coverage_strict_percentage = 0,
      coverage_any_percentage = 0, directory_tree = tree\<rparr>"


section \<open>getAllRecords and the New Arrivals count\<close>

lemma foldl_append_concat:
  "foldl (\<lambda>acc child. acc @ f child) rs cs = rs @ concat (map f cs)"
  by (induction cs arbitrary: rs) simp_all

lemma getAllRecords_unfold:
  "getAllRecords node = records node @ concat (map getAllRecords (children node))"
  by (cases node) (simp add: foldl_append_concat)

lemma sum_list_map_cong:
  "(\<And>x. x \<in> set xs \<Longrightarrow> f x = g x) \<Longrightarrow> sum_list (map f xs) = sum_list (map g xs)"
  by (induction xs) simp_all

lemma int_sum_list_map:
  "int (sum_list (map f xs)) = sum_list (map (\<lambda>x. int (f x)) xs)"
  by (induction xs) simp_all

lemma length_getAllRecords:
  "countInvariant node \<Longrightarrow> int (length (getAllRecords node)) = count node"
proof (induction node)
  case (DirectoryNode n p c cs rs)
  have inv: "list_all countInvariant cs" and c: "c = int (length rs) + sum_list (map count cs)"
    using DirectoryNode.prems by simp_all
  have "int (length (concat (map getAllRecords cs)))
          = sum_list (map (\<lambda>x. int (length (getAllRecords x))) cs)"
    by (simp add: length_concat comp_def int_sum_list_map)
  also have "\<dots> = sum_list (map count cs)"
    using DirectoryNode.IH inv by (intro sum_list_map_cong) (simp add: list_all_iff)
  finally show ?case using c
    by (simp add: foldl_append_concat)
qed

lemma newUrlCount_tree:
  "length (filter (\<lambda>r. is_new r = Some True) (getAllRecords node)) = newInTree node"
proof (induction node)
  case (DirectoryNode n p c cs rs)
  have "length (filter (\<lambda>r. is_new r = Some True) (concat (map getAllRecords cs)))
          = sum_list (map (\<lambda>x. length (filter (\<lambda>r. is_new r = Some True) (getAllRecords x))) cs)"
    by (simp add: filter_concat length_concat comp_def)
  also have "\<dots> = sum_list (map newInTree cs)"
    using DirectoryNode.IH by (intro sum_list_map_cong) simp
  finally show ?case
    by (simp add: foldl_append_concat)
qed

text \<open>
  Claim C8. \<^verbatim>\<open>getAllRecords\<close> returns the node's own records followed by each child's
  collected records, in child order; on a tree that satisfies the count invariant the
  returned list has exactly \<open>count\<close> elements; and the New Arrivals number is the number
  of \<^verbatim>\<open>is_new\<close> records of the whole tree.
\<close>

theorem getAllRecords_preorder:
  "getAllRecords node = records node @ concat (map getAllRecords (children node)) \<and>
   (countInvariant node \<longrightarrow> int (length (getAllRecords node)) = count node) \<and>
   newUrlCount data = newInTree (directory_tree data)"
  by (simp add: getAllRecords_unfold [symmetric] length_getAllRecords newUrlCount_def
      baseRecords_def newUrlCount_tree)

theorem getAllRecords_preorder_witness:
  "countInvariant sampleTree \<and> int (length (getAllRecords sampleTree)) = 3 \<and>
   getAllRecords sampleTree =
     [sampleRecord ''r'' ''x'', sampleRecord ''t'' ''y'',
      (sampleRecord ''e'' ''x'')\<lparr>is_new := Some True\<rparr>]"
  using getAllRecords_preorder [of sampleTree]
  by (simp add: sampleTree_def)

section \<open>Breadcrumb navigation\<close>

lemma navigate_descendant:
  "navigate vroot current p = (case descendant current p of None \<Rightarrow> vroot | Some d \<Rightarrow> d)"
  by (induction p arbitrary: current) (simp_all split: option.splits)

lemma descendant_append:
  "descendant node (p @ q) = (case descendant node p of None \<Rightarrow> None | Some d \<Rightarrow> descendant d q)"
  by (induction p arbitrary: node) (simp_all split: option.splits)

text \<open>
  Claim C9. When every segment of the navigation path names a child of the node
  reached so far, \<^verbatim>\<open>currentNode\<close> is the descendant the path leads to; the empty path
  gives the virtual root; and when a segment names no child the result is the virtual
  root itself, also when the segments before it had led to a node \<open>d\<close>.
\<close>

theorem currentNode_breadcrumbs:
  "(descendant vroot p = Some d \<longrightarrow> currentNode vroot p = d) \<and>
   currentNode vroot [] = vroot \<and>
   (descendant vroot p = None \<longrightarrow> currentNode vroot p = vroot) \<and>
   (descendant vroot p = Some d \<longrightarrow> find (\<lambda>c. name c = segment) (children d) = None \<longrightarrow>
      currentNode vroot (p @ segment # q) = vroot)"
  by (simp add: currentNode_def navigate_descendant descendant_append)

theorem currentNode_breadcrumbs_witness:
  "descendant sampleTree [''tools'', ''edit''] =
     Some (DirectoryNode ''edit'' ''/tools/edit'' 1 []
             [(sampleRecord ''e'' ''x'')\<lparr>is_new := Some True\<rparr>]) \<and>
   currentNode sampleTree [''tools'', ''edit''] =
     DirectoryNode ''edit'' ''/tools/edit'' 1 []
             [(sampleRecord ''e'' ''x'')\<lparr>is_new := Some True\<rparr>] \<and>
   descendant sampleTree [''tools''] \<noteq> None \<and>
   descendant sampleTree [''tools'', ''missing'', ''edit''] = None \<and>
   currentNode sampleTree [''tools'', ''missing'', ''edit''] = sampleTree"
  using currentNode_breadcrumbs [of sampleTree "[''tools'', ''edit'']" _ "''missing''" "[''edit'']"]
    currentNode_breadcrumbs [of sampleTree "[''tools'', ''missing'', ''edit'']"]
  by (simp add: sampleTree_def)

section \<open>The displayed records of a node\<close>

lemma startsWith_iff: "startsWith s p \<longleftrightarrow> (\<exists>b. s = p @ b)"
  by (induction s p rule: startsWith.induct) auto

lemma includes_iff: "includes s p \<longleftrightarrow> (\<exists>a b. s = a @ p @ b)"
proof (induction s)
  case Nil
  then show ?case by (simp add: startsWith_iff)
next
  case (Cons c s)
  show ?case
  proof
    assume "includes (c # s) p"
    then consider "startsWith (c # s) p" | "includes s p" by auto
    then show "\<exists>a b. c # s = a @ p @ b"
    proof cases
      case 1
      then obtain b where "c # s = p @ b" by (auto simp: startsWith_iff)
      then have "c # s = [] @ p @ b" by simp
      then show ?thesis by blast
    next
      case 2
      then obtain a b where "s = a @ p @ b" using Cons.IH by blast
      then have "c # s = (c # a) @ p @ b" by simp
      then show ?thesis by blast
    qed
  next
    assume "\<exists>a b. c # s = a @ p @ b"
    then obtain a b where ab: "c # s = a @ p @ b" by blast
    show "includes (c # s) p"
    proof (cases a)
      case Nil
      with ab have "startsWith (c # s) p" by (auto simp: startsWith_iff)
      then show ?thesis by simp
    next
      case (Cons a0 a')
      with ab have "s = a' @ p @ b" by simp
      then have "includes s p" using Cons.IH by blast
      then show ?thesis by simp
    qed
  qed
qed

lemma includes_toLowerCase:
  "includes s p \<Longrightarrow> includes (toLowerCase s) (toLowerCase p)"
  unfolding includes_iff toLowerCase_def by (metis map_append)

lemma patterns_lower_case: "list_all (\<lambda>p. toLowerCase p = p) COMMON_PAGE_PATTERNS"
  by (simp add: COMMON_PAGE_PATTERNS_def toLowerCase_def toLowerChar_def)

lemma isNoise_contains:
  assumes "p \<in> set COMMON_PAGE_PATTERNS" and "includes (toLowerCase s) p"
  shows "isNoise s"
  using assms by (auto simp: isNoise_def list_ex_iff)

text \<open>
  Claim C10. With \<^verbatim>\<open>hideCommon\<close> false and an empty search query the displayed
  records are \<^verbatim>\<open>node.records\<close>, the same records in the same order. The initial
  state is \<^verbatim>\<open>hideCommon = true\<close> with an empty query, and with \<^verbatim>\<open>hideCommon\<close> true a
  record whose path contains one of the common-page patterns is not displayed,
  whatever the query.
\<close>

theorem filteredRecords_disabled:
  "filteredRecords node False [] = records node \<and>
   hideCommonDefault = True \<and>
   searchQueryDefault = [] \<and>
   (p \<in> set COMMON_PAGE_PATTERNS \<longrightarrow> includes (IntentRecord.path r) p \<longrightarrow>
      r \<notin> set (filteredRecords node hideCommonDefault q))"
proof -
  have "isNoise (IntentRecord.path r)"
    if "p \<in> set COMMON_PAGE_PATTERNS" "includes (IntentRecord.path r) p"
  proof -
    have "toLowerCase p = p" using that(1) patterns_lower_case by (simp add: list_all_iff)
    with includes_toLowerCase [OF that(2)] have "includes (toLowerCase (IntentRecord.path r)) p"
      by simp
    with that(1) show ?thesis by (rule isNoise_contains)
  qed
  then show ?thesis
    by (auto simp: filteredRecords_def keepRecord_def hideCommonDefault_def searchQueryDefault_def)
qed

theorem filteredRecords_disabled_witness:
  "''login'' \<in> set COMMON_PAGE_PATTERNS \<and>
   includes (IntentRecord.path (sampleRecord ''userlogin'' ''x'')) ''login'' \<and>
   sampleRecord ''userlogin'' ''x'' \<in> set (records sampleNode) \<and>
   sampleRecord ''userlogin'' ''x'' \<notin> set (filteredRecords sampleNode hideCommonDefault []) \<and>
   filteredRecords sampleNode hideCommonDefault searchQueryDefault = [sampleRecord ''upscale'' ''y''] \<and>
   filteredRecords sampleNode False [] = records sampleNode"
  using filteredRecords_disabled [of sampleNode "''login''" "sampleRecord ''userlogin'' ''x''" "[]"]
  by (simp add: COMMON_PAGE_PATTERNS_def sampleRecord_def sampleNode_def filteredRecords_def keepRecord_def isNoise_def
     toLowerCase_def toLowerChar_def hideCommonDefault_def searchQueryDefault_def)

section \<open>Array.prototype.sort and Object.entries\<close>

lemma mset_insertSorted: "mset (insertSorted cmp a bs) = add_mset a (mset bs)"
  by (induction bs) simp_all

lemma mset_arraySort: "mset (arraySort cmp xs) = mset xs"
  by (induction xs) (simp_all add: mset_insertSorted)

lemma set_arraySort: "set (arraySort cmp xs) = set xs"
  by (rule mset_eq_setD) (rule mset_arraySort)

lemma length_arraySort: "length (arraySort cmp xs) = length xs"
  by (rule mset_eq_length) (rule mset_arraySort)

lemma mset_objectEntries: "mset (objectEntries obj) = mset obj"
  by (simp add: objectEntries_def not_None_eq [symmetric] del: not_None_eq)

lemma filter_insertSorted_class:
  assumes "\<And>x y. P x \<Longrightarrow> P y \<Longrightarrow> cmp x y \<le> 0"
  shows "filter P (insertSorted cmp a bs) = (if P a then a # filter P bs else filter P bs)"
  using assms by (induction bs) auto

lemma filter_arraySort_class:
  assumes "\<And>x y. P x \<Longrightarrow> P y \<Longrightarrow> cmp x y \<le> 0"
  shows "filter P (arraySort cmp xs) = filter P xs"
  using assms by (induction xs) (simp_all add: filter_insertSorted_class)

lemma sorted_insertSorted:
  assumes tot: "\<And>x y. cmp x y \<le> 0 \<or> cmp y x \<le> 0"
    and trans: "\<And>x y z. cmp x y \<le> 0 \<Longrightarrow> cmp y z \<le> 0 \<Longrightarrow> cmp x z \<le> 0"
    and "sorted_wrt (\<lambda>x y. cmp x y \<le> 0) bs"
  shows "sorted_wrt (\<lambda>x y. cmp x y \<le> 0) (insertSorted cmp a bs)"
  using assms(3)
proof (induction bs)
  case Nil
  then show ?case by simp
next
  case (Cons b bs)
  show ?case
  proof (cases "cmp a b \<le> 0")
    case True
    then have "\<forall>y\<in>set bs. cmp a y \<le> 0" using Cons.prems trans by auto
    with True Cons.prems show ?thesis by simp
  next
    case False
    then have "cmp b a \<le> 0" using tot by blast
    then have "\<forall>y\<in>set (insertSorted cmp a bs). cmp b y \<le> 0"
      using Cons.prems by (auto simp: mset_insertSorted simp flip: set_mset_mset)
    with False Cons show ?thesis by simp
  qed
qed

lemma sorted_arraySort:
  assumes tot: "\<And>x y. cmp x y \<le> 0 \<or> cmp y x \<le> 0"
    and trans: "\<And>x y z. cmp x y \<le> 0 \<Longrightarrow> cmp y z \<le> 0 \<Longrightarrow> cmp x z \<le> 0"
  shows "sorted_wrt (\<lambda>x y. cmp x y \<le> 0) (arraySort cmp xs)"
  by (induction xs) (simp_all add: sorted_insertSorted [OF tot trans])

section \<open>The grouping loop\<close>

lemma keys_pushTo:
  "map fst (pushTo key rec g) = (if key \<in> set (map fst g) then map fst g else map fst g @ [key])"
  by (induction g) (fastforce+)

lemma map_of_pushTo:
  "map_of (pushTo key rec g) k = (if k = key then Some (groupOf g key @ [rec]) else map_of g k)"
  by (induction g) (auto simp: groupOf_def)

lemma total_pushTo:
  "sum_list (map (\<lambda>e. length (snd e)) (pushTo key rec g)) = Suc (sum_list (map (\<lambda>e. length (snd e)) g))"
  by (induction g) auto

lemma addToGroup_Inr:
  "addToGroup g key rec = Inr g' \<Longrightarrow> g' = pushTo key rec g"
  by (auto simp: addToGroup_def split: option.splits if_splits)

lemma addToGroup_ok:
  "key \<notin> set objectPrototypeKeys \<Longrightarrow> addToGroup g key rec = Inr (pushTo key rec g)"
  by (simp add: addToGroup_def split: option.splits)

lemma addToGroup_inherited:
  "key \<in> set objectPrototypeKeys \<Longrightarrow> key \<notin> set (map fst g) \<Longrightarrow> addToGroup g key rec = Inl TypeError"
  by (simp add: addToGroup_def map_of_eq_None_iff split: option.splits)

lemma collectGroups_ok:
  "\<forall>r\<in>set recs. groupKey keyFn r \<notin> set objectPrototypeKeys \<Longrightarrow>
   \<exists>g'. collectGroups keyFn recs g = Inr g'"
  by (induction recs arbitrary: g) (simp_all add: addToGroup_ok)

lemma collectGroups_keys:
  "collectGroups keyFn recs g = Inr g' \<Longrightarrow>
   set (map fst g') = set (map fst g) \<union> groupKey keyFn ` set recs"
proof (induction recs arbitrary: g)
  case Nil
  then show ?case by simp
next
  case (Cons r recs)
  from Cons.prems obtain g1 where g1: "addToGroup g (groupKey keyFn r) r = Inr g1"
    and rest: "collectGroups keyFn recs g1 = Inr g'"
    by (auto split: sum.splits)
  have "g1 = pushTo (groupKey keyFn r) r g" using g1 by (rule addToGroup_Inr)
  then have "set (map fst g1) = insert (groupKey keyFn r) (set (map fst g))"
    by (auto simp: keys_pushTo)
  with Cons.IH [OF rest] show ?case by auto
qed

lemma collectGroups_distinct:
  "collectGroups keyFn recs g = Inr g' \<Longrightarrow> distinct (map fst g) \<Longrightarrow> distinct (map fst g')"
proof (induction recs arbitrary: g)
  case Nil
  then show ?case by simp
next
  case (Cons r recs)
  from Cons.prems obtain g1 where g1: "addToGroup g (groupKey keyFn r) r = Inr g1"
    and rest: "collectGroups keyFn recs g1 = Inr g'"
    by (auto split: sum.splits)
  have "g1 = pushTo (groupKey keyFn r) r g" using g1 by (rule addToGroup_Inr)
  then have "distinct (map fst g1)" using Cons.prems(2) by (simp add: keys_pushTo)
  with Cons.IH [OF rest] show ?case .
qed

lemma collectGroups_total:
  "collectGroups keyFn recs g = Inr g' \<Longrightarrow>
   sum_list (map (\<lambda>e. length (snd e)) g') = sum_list (map (\<lambda>e. length (snd e)) g) + length recs"
proof (induction recs arbitrary: g)
  case Nil
  then show ?case by simp
next
  case (Cons r recs)
  from Cons.prems obtain g1 where g1: "addToGroup g (groupKey keyFn r) r = Inr g1"
    and rest: "collectGroups keyFn recs g1 = Inr g'"
    by (auto split: sum.splits)
  have "g1 = pushTo (groupKey keyFn r) r g" using g1 by (rule addToGroup_Inr)
  with Cons.IH [OF rest] show ?case by (simp add: total_pushTo)
qed

lemma collectGroups_groupOf:
  "collectGroups keyFn recs g = Inr g' \<Longrightarrow>
   groupOf g' k = groupOf g k @ filter (\<lambda>r. groupKey keyFn r = k) recs"
proof (induction recs arbitrary: g)
  case Nil
  then show ?case by simp
next
  case (Cons r recs)
  from Cons.prems obtain g1 where g1: "addToGroup g (groupKey keyFn r) r = Inr g1"
    and rest: "collectGroups keyFn recs g1 = Inr g'"
    by (auto split: sum.splits)
  have "g1 = pushTo (groupKey keyFn r) r g" using g1 by (rule addToGroup_Inr)
  then have "groupOf g1 k = (if k = groupKey keyFn r then groupOf g k @ [r] else groupOf g k)"
    by (simp add: groupOf_def map_of_pushTo)
  with Cons.IH [OF rest] show ?case by auto
qed

lemma collectGroups_inherited:
  "collectGroups keyFn recs g = Inr g' \<Longrightarrow> set (map fst g) \<inter> set objectPrototypeKeys = {} \<Longrightarrow>
   \<forall>r\<in>set recs. groupKey keyFn r \<notin> set objectPrototypeKeys"
proof (induction recs arbitrary: g)
  case Nil
  then show ?case by simp
next
  case (Cons r recs)
  from Cons.prems obtain g1 where g1: "addToGroup g (groupKey keyFn r) r = Inr g1"
    and rest: "collectGroups keyFn recs g1 = Inr g'"
    by (auto split: sum.splits)
  have ok: "groupKey keyFn r \<notin> set objectPrototypeKeys"
    using g1 Cons.prems(2) addToGroup_inherited [of "groupKey keyFn r" g r] by auto
  have "g1 = pushTo (groupKey keyFn r) r g" using g1 by (rule addToGroup_Inr)
  then have "set (map fst g1) \<inter> set objectPrototypeKeys = {}"
    using ok Cons.prems(2) by (auto simp: keys_pushTo split: if_splits)
  with Cons.IH [OF rest] ok show ?case by simp
qed

lemma entry_group:
  assumes "collectGroups keyFn recs [] = Inr g" and "e \<in> set g"
  shows "snd e = filter (\<lambda>r. groupKey keyFn r = fst e) recs"
proof -
  have "distinct (map fst g)" using assms(1) by (rule collectGroups_distinct) simp
  then have "map_of g (fst e) = Some (snd e)"
    using assms(2) by (simp add: map_of_eq_Some_iff)
  then have "groupOf g (fst e) = snd e" by (simp add: groupOf_def)
  with collectGroups_groupOf [OF assms(1), of "fst e"] show ?thesis by (simp add: groupOf_def)
qed

section \<open>The tree built by groupRecords\<close>

lemma sum_list_map_mset:
  fixes f :: "'a \<Rightarrow> 'b::comm_monoid_add"
  assumes "mset xs = mset ys"
  shows "sum_list (map f xs) = sum_list (map f ys)"
proof -
  have "mset (map f xs) = mset (map f ys)" using assms by simp
  then have "sum_mset (mset (map f xs)) = sum_mset (mset (map f ys))" by (rule arg_cong)
  then show ?thesis by (simp only: sum_mset_sum_list)
qed

lemma groupRecords_Inr:
  assumes "groupRecords lc recs keyFn sortMode = Inr t"
  obtains g where "collectGroups keyFn recs [] = Inr g"
    and "t = DirectoryNode ''Root'' ''/'' (int (length recs))
               (arraySort (compareGroups lc sortMode)
                  (map (groupNode lc sortMode) (objectEntries g))) []"
  using assms by (auto simp: groupRecords_def split: sum.splits)

lemma groupRecords_ok:
  assumes "\<forall>r\<in>set recs. groupKey keyFn r \<notin> set objectPrototypeKeys"
  shows "\<exists>t. groupRecords lc recs keyFn sortMode = Inr t"
  using collectGroups_ok [OF assms, of "[]"] by (auto simp: groupRecords_def)

lemma groupRecords_inherited:
  assumes "r \<in> set recs" and "groupKey keyFn r \<in> set objectPrototypeKeys"
  shows "groupRecords lc recs keyFn sortMode = Inl TypeError"
proof (cases "groupRecords lc recs keyFn sortMode")
  case (Inl e)
  then show ?thesis by (cases e) simp
next
  case (Inr t)
  then obtain g where "collectGroups keyFn recs [] = Inr g" by (rule groupRecords_Inr)
  then have "\<forall>r\<in>set recs. groupKey keyFn r \<notin> set objectPrototypeKeys"
    by (rule collectGroups_inherited) simp
  with assms show ?thesis by blast
qed

lemma children_groupRecords:
  assumes "groupRecords lc recs keyFn sortMode = Inr t" and "c \<in> set (children t)"
  shows "children c = []"
    and "count c = int (length (records c))"
    and "mset (records c) = mset (filter (\<lambda>r. groupKey keyFn r = name c) recs)"
    and "name c \<in> groupKey keyFn ` set recs"
    and "DirectoryNode.path c = ''/'' @ name c"
proof -
  from assms(1) obtain g where g: "collectGroups keyFn recs [] = Inr g"
    and t: "t = DirectoryNode ''Root'' ''/'' (int (length recs))
               (arraySort (compareGroups lc sortMode)
                  (map (groupNode lc sortMode) (objectEntries g))) []"
    by (rule groupRecords_Inr)
  from assms(2) t have "c \<in> set (map (groupNode lc sortMode) (objectEntries g))"
    by (simp add: set_arraySort)
  then obtain e where e: "e \<in> set (objectEntries g)" and c: "c = groupNode lc sortMode e"
    by auto
  have "set (objectEntries g) = set g"
    by (rule mset_eq_setD) (rule mset_objectEntries)
  with e have eg: "e \<in> set g" by simp
  show "children c = []" by (simp add: c groupNode_def)
  show "count c = int (length (records c))" by (simp add: c groupNode_def length_arraySort)
  show "mset (records c) = mset (filter (\<lambda>r. groupKey keyFn r = name c) recs)"
    using entry_group [OF g eg] by (simp add: c groupNode_def mset_arraySort)
  have "fst e \<in> set (map fst g)" using eg by simp
  then show "name c \<in> groupKey keyFn ` set recs"
    using collectGroups_keys [OF g] by (simp add: c groupNode_def)
  show "DirectoryNode.path c = ''/'' @ name c" by (simp add: c groupNode_def)
qed

lemma names_groupRecords:
  assumes "groupRecords lc recs keyFn sortMode = Inr t"
  shows "distinct (map name (children t))"
    and "set (map name (children t)) = groupKey keyFn ` set recs"
    and "sum_list (map count (children t)) = int (length recs)"
    and "name t = ''Root''" and "records t = []" and "count t = int (length recs)"
    and "DirectoryNode.path t = ''/''"
proof -
  from assms(1) obtain g where g: "collectGroups keyFn recs [] = Inr g"
    and t: "t = DirectoryNode ''Root'' ''/'' (int (length recs))
               (arraySort (compareGroups lc sortMode)
                  (map (groupNode lc sortMode) (objectEntries g))) []"
    by (rule groupRecords_Inr)
  have m: "mset (children t) = mset (map (groupNode lc sortMode) g)"
    by (simp add: t mset_arraySort mset_objectEntries)
  have nm: "map name (map (groupNode lc sortMode) g) = map fst g"
    by (simp add: groupNode_def)
  have "mset (map name (children t)) = mset (map name (map (groupNode lc sortMode) g))"
    using m by (simp only: mset_map)
  then have names: "mset (map name (children t)) = mset (map fst g)"
    by (simp only: nm)
  have "distinct (map fst g)" using g by (rule collectGroups_distinct) simp
  then show "distinct (map name (children t))"
    by (simp only: mset_eq_imp_distinct_iff [OF names])
  have "set (map name (children t)) = set (map fst g)"
    using names by (rule mset_eq_setD)
  then show "set (map name (children t)) = groupKey keyFn ` set recs"
    using collectGroups_keys [OF g] by simp
  have "sum_list (map count (children t)) = sum_list (map count (map (groupNode lc sortMode) g))"
    using m by (rule sum_list_map_mset)
  also have "\<dots> = int (sum_list (map (\<lambda>e. length (snd e)) g))"
    by (simp add: groupNode_def comp_def int_sum_list_map)
  also have "\<dots> = int (length recs)"
    using collectGroups_total [OF g] by simp
  finally show "sum_list (map count (children t)) = int (length recs)" .
  show "name t = ''Root''" "records t = []" "count t = int (length recs)"
    "DirectoryNode.path t = ''/''"
    by (simp_all add: t)
qed

lemma countInvariant_leaf:
  "children c = [] \<Longrightarrow> count c = int (length (records c)) \<Longrightarrow> countInvariant c"
  by (cases c) simp

text \<open>
  Claim C1. In every tree that \<^verbatim>\<open>groupRecords\<close> returns, for any records, key function,
  sort mode and host collation, every node's \<open>count\<close> is the number of records attached
  to it plus the sum of its children's counts, and the root's \<open>count\<close> is the number of
  input records.
\<close>

theorem groupRecords_count_invariant:
  assumes "groupRecords lc recs keyFn sortMode = Inr t"
  shows "countInvariant t \<and> count t = int (length recs)"
proof -
  have "list_all countInvariant (children t)"
    unfolding list_all_iff
    using children_groupRecords(1,2) [OF assms] countInvariant_leaf by blast
  moreover have "count t = int (length (records t)) + sum_list (map count (children t))"
    using names_groupRecords(3,5,6) [OF assms] by simp
  ultimately have "countInvariant t" by (cases t) simp
  then show ?thesis using names_groupRecords(6) [OF assms] by simp
qed

lemmas evaluation =
  groupRecords_def addToGroup_def groupKey_def objectPrototypeKeys_def objectEntries_def
  arrayIndex_def digitValue_def indexOrZero_def groupNode_def compareGroups_def
  compareRecords_def titleOrUrl_def orEmpty_def localeCompare_def primaryKey_def
  tertiaryKey_def toLowerChar_def sampleRecord_def

text \<open>Claim C1 at three records in two groups.\<close>

theorem groupRecords_count_invariant_witness:
  "groupRecords localeCompare
     [sampleRecord ''a'' ''x'', sampleRecord ''b'' ''y'', sampleRecord ''c'' ''x'']
     (\<lambda>r. Some (IntentRecord.intent_category r)) Name =
   Inr (DirectoryNode ''Root'' ''/'' 3
          [DirectoryNode ''x'' ''/x'' 2 [] [sampleRecord ''a'' ''x'', sampleRecord ''c'' ''x''],
           DirectoryNode ''y'' ''/y'' 1 [] [sampleRecord ''b'' ''y'']] []) \<and>
   countInvariant (DirectoryNode ''Root'' ''/'' 3
          [DirectoryNode ''x'' ''/x'' 2 [] [sampleRecord ''a'' ''x'', sampleRecord ''c'' ''x''],
           DirectoryNode ''y'' ''/y'' 1 [] [sampleRecord ''b'' ''y'']] [])"
proof -
  have run: "groupRecords localeCompare
     [sampleRecord ''a'' ''x'', sampleRecord ''b'' ''y'', sampleRecord ''c'' ''x'']
     (\<lambda>r. Some (IntentRecord.intent_category r)) Name =
   Inr (DirectoryNode ''Root'' ''/'' 3
          [DirectoryNode ''x'' ''/x'' 2 [] [sampleRecord ''a'' ''x'', sampleRecord ''c'' ''x''],
           DirectoryNode ''y'' ''/y'' 1 [] [sampleRecord ''b'' ''y'']] [])"
    by (simp add: evaluation)
  from groupRecords_count_invariant [OF run] run show ?thesis by simp
qed

lemma collectGroups_key_order:
  "collectGroups keyFn recs g = Inr g' \<Longrightarrow>
   map fst g' =
     map fst g @ firstOccurrences (filter (\<lambda>k. k \<notin> set (map fst g)) (map (groupKey keyFn) recs))"
proof (induction recs arbitrary: g)
  case Nil
  then show ?case by simp
next
  case (Cons r recs)
  let ?k = "groupKey keyFn r"
  from Cons.prems obtain g1 where g1: "addToGroup g ?k r = Inr g1"
    and rest: "collectGroups keyFn recs g1 = Inr g'"
    by (auto split: sum.splits)
  have p: "g1 = pushTo ?k r g" using g1 by (rule addToGroup_Inr)
  show ?case
  proof (cases "?k \<in> set (map fst g)")
    case True
    then have "map fst g1 = map fst g" by (simp add: p keys_pushTo)
    with Cons.IH [OF rest] True show ?thesis by simp
  next
    case False
    then have k1: "map fst g1 = map fst g @ [?k]" by (simp add: p keys_pushTo)
    have "filter (\<lambda>k. k \<notin> set (map fst g1)) (map (groupKey keyFn) recs)
            = filter (\<lambda>y. y \<noteq> ?k) (filter (\<lambda>k. k \<notin> set (map fst g)) (map (groupKey keyFn) recs))"
      by (auto simp: k1 intro: filter_cong)
    with Cons.IH [OF rest] False k1 show ?thesis by simp
  qed
qed

section \<open>Ordering of sibling groups by count\<close>

text \<open>
  Claim C3, as amended. With sort mode \<^verbatim>\<open>count\<close> the comparator is
  \<^verbatim>\<open>b.count - a.count\<close> alone: the sibling groups are in descending order of count, and
  the groups of one count \<open>n\<close> stand in the order in which \<^verbatim>\<open>Object.entries\<close> lists
  them, that is array-index names first in ascending numeric order and then the other
  names in the order of their first occurrence in the input. Names are not compared.
\<close>

theorem count_order_ties:
  assumes "groupRecords lc recs keyFn Count = Inr t"
  shows "\<exists>g. collectGroups keyFn recs [] = Inr g \<and>
           map fst g = firstOccurrences (map (groupKey keyFn) recs) \<and>
           sorted_wrt (\<lambda>a b. count b \<le> count a) (children t) \<and>
           map name (filter (\<lambda>c. count c = n) (children t)) =
             map fst (filter (\<lambda>e. int (length (snd e)) = n) (objectEntries g))"
proof -
  from assms obtain g where g: "collectGroups keyFn recs [] = Inr g"
    and t: "t = DirectoryNode ''Root'' ''/'' (int (length recs))
               (arraySort (compareGroups lc Count)
                  (map (groupNode lc Count) (objectEntries g))) []"
    by (rule groupRecords_Inr)
  have order: "map fst g = firstOccurrences (map (groupKey keyFn) recs)"
    using collectGroups_key_order [OF g] by simp
  have "sorted_wrt (\<lambda>a b. compareGroups lc Count a b \<le> 0)
          (arraySort (compareGroups lc Count) (map (groupNode lc Count) (objectEntries g)))"
    by (rule sorted_arraySort) (auto simp: compareGroups_def)
  then have sorted: "sorted_wrt (\<lambda>a b. count b \<le> count a) (children t)"
    by (simp add: t compareGroups_def)
  have "filter (\<lambda>c. count c = n) (children t)
          = filter (\<lambda>c. count c = n) (map (groupNode lc Count) (objectEntries g))"
    unfolding t DirectoryNode.sel
    by (rule filter_arraySort_class) (simp add: compareGroups_def)
  then have "map name (filter (\<lambda>c. count c = n) (children t))
          = map fst (filter (\<lambda>e. int (length (snd e)) = n) (objectEntries g))"
    by (simp add: filter_map comp_def groupNode_def)
  with g order sorted show ?thesis by blast
qed

text \<open>
  Claim C3 as stated fails for a record of category \<open>b\<close> followed by one of category
  \<open>a\<close>: both groups have count 1, and \<open>b\<close> stays before \<open>a\<close> although \<open>a\<close> is first in
  name order.
\<close>

theorem count_order_ties_counterexample:
  "groupRecords localeCompare [sampleRecord ''u'' ''b'', sampleRecord ''v'' ''a'']
     (\<lambda>r. Some (IntentRecord.intent_category r)) Count =
   Inr (DirectoryNode ''Root'' ''/'' 2
          [DirectoryNode ''b'' ''/b'' 1 [] [sampleRecord ''u'' ''b''],
           DirectoryNode ''a'' ''/a'' 1 [] [sampleRecord ''v'' ''a'']] []) \<and>
   localeCompare ''a'' ''b'' < 0 \<and> \<not> localeCompare ''b'' ''a'' \<le> 0"
  by (simp add: evaluation)

text \<open>
  Claim C3 as amended, at five records: among the groups of count 1 the array-index
  names \<open>7\<close> and \<open>10\<close> come first in numeric order, then \<open>b\<close>.
\<close>

theorem count_order_ties_witness:
  "\<exists>g. collectGroups (\<lambda>r. Some (IntentRecord.intent_category r))
          [sampleRecord ''u'' ''b'', sampleRecord ''v'' ''7'', sampleRecord ''w'' ''a'',
           sampleRecord ''x'' ''10'', sampleRecord ''y'' ''a''] [] = Inr g \<and>
        map fst g = [''b'', ''7'', ''a'', ''10''] \<and>
        map fst (filter (\<lambda>e. int (length (snd e)) = 1) (objectEntries g)) = [''7'', ''10'', ''b''] \<and>
        map name (filter (\<lambda>c. count c = 1)
          (children (projr (groupRecords localeCompare
             [sampleRecord ''u'' ''b'', sampleRecord ''v'' ''7'', sampleRecord ''w'' ''a'',
              sampleRecord ''x'' ''10'', sampleRecord ''y'' ''a'']
             (\<lambda>r. Some (IntentRecord.intent_category r)) Count)))) = [''7'', ''10'', ''b'']"
proof -
  let ?recs = "[sampleRecord ''u'' ''b'', sampleRecord ''v'' ''7'', sampleRecord ''w'' ''a'',
           sampleRecord ''x'' ''10'', sampleRecord ''y'' ''a'']"
  let ?keyFn = "\<lambda>r. Some (IntentRecord.intent_category r)"
  obtain t where run: "groupRecords localeCompare ?recs ?keyFn Count = Inr t"
    by (simp add: evaluation)
  from count_order_ties [OF run, of 1] obtain g where
    g: "collectGroups ?keyFn ?recs [] = Inr g" and
    o: "map fst g = firstOccurrences (map (groupKey ?keyFn) ?recs)" and
    f: "map name (filter (\<lambda>c. count c = 1) (children t)) =
             map fst (filter (\<lambda>e. int (length (snd e)) = 1) (objectEntries g))"
    by blast
  have gv: "g = [(''b'', [sampleRecord ''u'' ''b'']), (''7'', [sampleRecord ''v'' ''7'']),
     (''a'', [sampleRecord ''w'' ''a'', sampleRecord ''y'' ''a'']), (''10'', [sampleRecord ''x'' ''10''])]"
    using g by (simp add: evaluation)
  have "map fst (filter (\<lambda>e. int (length (snd e)) = 1) (objectEntries g)) = [''7'', ''10'', ''b'']"
    unfolding gv by (simp add: evaluation)
  with g f run gv show ?thesis by simp
qed

section \<open>The grouping scenario\<close>

lemma objectEntries_two:
  "objectEntries [e1, e2] = [e1, e2] \<or> objectEntries [e1, e2] = [e2, e1]"
  by (auto simp: objectEntries_def)

text \<open>
  Claim C5. Five records whose categories are \<open>x, x, y, y, y\<close>, grouped by
  \<^verbatim>\<open>intent_category\<close> with sort mode \<^verbatim>\<open>count\<close>, give exactly two child groups: the
  group \<open>y\<close> of count 3 first and the group \<open>x\<close> of count 2 second. Here \<open>x\<close> and \<open>y\<close> are
  any two different non-empty categories that are not property names of
  \<^verbatim>\<open>Object.prototype\<close>.
\<close>

theorem grouping_scenario:
  assumes cats: "map IntentRecord.intent_category [r1, r2, r3, r4, r5] = [x, x, y, y, y]"
    and xy: "x \<noteq> y" "x \<noteq> []" "y \<noteq> []"
    and own: "x \<notin> set objectPrototypeKeys" "y \<notin> set objectPrototypeKeys"
  shows "\<exists>t. groupRecords lc [r1, r2, r3, r4, r5] (\<lambda>r. Some (IntentRecord.intent_category r)) Count = Inr t \<and>
           map name (children t) = [y, x] \<and> map count (children t) = [3, 2]"
proof -
  let ?keyFn = "\<lambda>r. Some (IntentRecord.intent_category r)"
  let ?g = "[(x, [r1, r2]), (y, [r3, r4, r5])]"
  have g: "collectGroups ?keyFn [r1, r2, r3, r4, r5] [] = Inr ?g"
    using cats xy own by (simp add: addToGroup_def groupKey_def)
  let ?nx = "groupNode lc Count (x, [r1, r2])" and ?ny = "groupNode lc Count (y, [r3, r4, r5])"
  have "map (groupNode lc Count) (objectEntries ?g) = [?nx, ?ny] \<or>
        map (groupNode lc Count) (objectEntries ?g) = [?ny, ?nx]"
    using objectEntries_two [of "(x, [r1, r2])" "(y, [r3, r4, r5])"] by auto
  then have sorted:
    "arraySort (compareGroups lc Count) (map (groupNode lc Count) (objectEntries ?g)) = [?ny, ?nx]"
    by (auto simp: compareGroups_def groupNode_def)
  have "groupRecords lc [r1, r2, r3, r4, r5] ?keyFn Count =
          Inr (DirectoryNode ''Root'' ''/'' (int (length [r1, r2, r3, r4, r5])) [?ny, ?nx] [])"
    unfolding groupRecords_def g sum.case sorted by (rule refl)
  moreover have "map name [?ny, ?nx] = [y, x]" "map count [?ny, ?nx] = [3, 2]"
    by (simp_all add: groupNode_def)
  ultimately show ?thesis by simp
qed

text \<open>Claim C5 at the categories \<open>x\<close> and \<open>y\<close> themselves.\<close>

theorem grouping_scenario_witness:
  "\<exists>t. groupRecords localeCompare
          [sampleRecord ''a'' ''x'', sampleRecord ''b'' ''x'', sampleRecord ''c'' ''y'',
           sampleRecord ''d'' ''y'', sampleRecord ''e'' ''y'']
          (\<lambda>r. Some (IntentRecord.intent_category r)) Count = Inr t \<and>
        map name (children t) = [''y'', ''x''] \<and> map count (children t) = [3, 2]"
  using grouping_scenario [of "sampleRecord ''a'' ''x''" "sampleRecord ''b'' ''x''"
      "sampleRecord ''c'' ''y''" "sampleRecord ''d'' ''y''" "sampleRecord ''e'' ''y''"
      "''x''" "''y''" localeCompare]
  by (simp add: sampleRecord_def objectPrototypeKeys_def)

section \<open>Ordering of sibling groups by name\<close>

lemma two_level_le:
  fixes p q :: "'a::linorder" and s t :: "'b::linorder"
  shows "(if p < q then - 1 else if q < p then 1 else if s < t then - 1 else if t < s then 1 else (0::int)) \<le> 0
         \<longleftrightarrow> p < q \<or> (p = q \<and> s \<le> t)"
  by auto

lemma localeCompare_le:
  "localeCompare a b \<le> 0 \<longleftrightarrow>
     primaryKey a < primaryKey b \<or> (primaryKey a = primaryKey b \<and> tertiaryKey a \<le> tertiaryKey b)"
  unfolding localeCompare_def by (rule two_level_le)

lemma two_level_total:
  fixes p q :: "'a::linorder" and s t :: "'b::linorder"
  shows "(p < q \<or> (p = q \<and> s \<le> t)) \<or> (q < p \<or> (q = p \<and> t \<le> s))"
  by (cases "p < q"; cases "q < p"; cases "s \<le> t") auto

lemma two_level_trans:
  fixes p q r :: "'a::linorder" and s t u :: "'b::linorder"
  assumes "p < q \<or> (p = q \<and> s \<le> t)" and "q < r \<or> (q = r \<and> t \<le> u)"
  shows "p < r \<or> (p = r \<and> s \<le> u)"
  using assms by (elim disjE conjE) (simp_all add: order.strict_trans order.trans [of s t u])

lemma collation_localeCompare: "collation localeCompare"
  unfolding collation_def
proof (intro conjI allI impI)
  fix a b
  show "localeCompare a b \<le> 0 \<or> localeCompare b a \<le> 0"
    unfolding localeCompare_le by (rule two_level_total)
next
  fix a b c
  assume "localeCompare a b \<le> 0" and "localeCompare b c \<le> 0"
  then show "localeCompare a c \<le> 0"
    unfolding localeCompare_le by (rule two_level_trans)
qed

text \<open>
  Claim C6, as amended. With sort mode \<^verbatim>\<open>name\<close> the comparator of two sibling groups
  is the host's \<^verbatim>\<open>localeCompare\<close> on their names as they are; the code folds no case.
  For every collation the sibling groups come out sorted with respect to it.
\<close>

theorem name_order_collation:
  assumes "collation lc" and "groupRecords lc recs keyFn Name = Inr t"
  shows "sorted_wrt (\<lambda>a b. lc (name a) (name b) \<le> 0) (children t) \<and>
         compareGroups lc Name a b = lc (name a) (name b)"
proof -
  from assms(2) obtain g where
    t: "t = DirectoryNode ''Root'' ''/'' (int (length recs))
               (arraySort (compareGroups lc Name)
                  (map (groupNode lc Name) (objectEntries g))) []"
    by (rule groupRecords_Inr)
  have cmp: "compareGroups lc Name = (\<lambda>a b. lc (name a) (name b))"
    by (simp add: compareGroups_def fun_eq_iff)
  have "sorted_wrt (\<lambda>a b. compareGroups lc Name a b \<le> 0)
          (arraySort (compareGroups lc Name) (map (groupNode lc Name) (objectEntries g)))"
  proof (rule sorted_arraySort)
    show "compareGroups lc Name x y \<le> 0 \<or> compareGroups lc Name y x \<le> 0" for x y
      using assms(1) by (simp add: cmp collation_def)
    show "compareGroups lc Name x y \<le> 0 \<Longrightarrow> compareGroups lc Name y z \<le> 0 \<Longrightarrow>
            compareGroups lc Name x z \<le> 0" for x y z
      using assms(1) unfolding cmp collation_def by blast
  qed
  then show ?thesis by (simp add: t cmp)
qed

text \<open>Claim C6 as amended, at the names \<open>B\<close>, \<open>A\<close>, \<open>a\<close> and \<open>b\<close>.\<close>

theorem name_order_collation_witness:
  "groupRecords localeCompare
     [sampleRecord ''u'' ''B'', sampleRecord ''v'' ''A'', sampleRecord ''w'' ''a'',
      sampleRecord ''x'' ''b'']
     (\<lambda>r. Some (IntentRecord.intent_category r)) Name =
   Inr (DirectoryNode ''Root'' ''/'' 4
          [DirectoryNode ''a'' ''/a'' 1 [] [sampleRecord ''w'' ''a''],
           DirectoryNode ''A'' ''/A'' 1 [] [sampleRecord ''v'' ''A''],
           DirectoryNode ''b'' ''/b'' 1 [] [sampleRecord ''x'' ''b''],
           DirectoryNode ''B'' ''/B'' 1 [] [sampleRecord ''u'' ''B'']] []) \<and>
   sorted_wrt (\<lambda>a b. localeCompare (name a) (name b) \<le> 0)
          [DirectoryNode ''a'' ''/a'' 1 [] [sampleRecord ''w'' ''a''],
           DirectoryNode ''A'' ''/A'' 1 [] [sampleRecord ''v'' ''A''],
           DirectoryNode ''b'' ''/b'' 1 [] [sampleRecord ''x'' ''b''],
           DirectoryNode ''B'' ''/B'' 1 [] [sampleRecord ''u'' ''B'']]"
proof -
  have run: "groupRecords localeCompare
     [sampleRecord ''u'' ''B'', sampleRecord ''v'' ''A'', sampleRecord ''w'' ''a'',
      sampleRecord ''x'' ''b'']
     (\<lambda>r. Some (IntentRecord.intent_category r)) Name =
   Inr (DirectoryNode ''Root'' ''/'' 4
          [DirectoryNode ''a'' ''/a'' 1 [] [sampleRecord ''w'' ''a''],
           DirectoryNode ''A'' ''/A'' 1 [] [sampleRecord ''v'' ''A''],
           DirectoryNode ''b'' ''/b'' 1 [] [sampleRecord ''x'' ''b''],
           DirectoryNode ''B'' ''/B'' 1 [] [sampleRecord ''u'' ''B'']] [])"
    by (simp add: evaluation)
  from name_order_collation [OF collation_localeCompare run] run show ?thesis
    by (simp del: sorted_wrt.simps)
qed

text \<open>
  Claim C6 as stated fails for the names \<open>A\<close> and \<open>a\<close>, which differ only in letter
  case: they do not compare equal, and the group \<open>A\<close>, although created first, is
  placed after the group \<open>a\<close>.
\<close>

theorem name_order_case_counterexample:
  "toLowerCase ''A'' = toLowerCase ''a'' \<and>
   compareGroups localeCompare Name
     (DirectoryNode ''A'' ''/A'' 1 [] [sampleRecord ''u'' ''A''])
     (DirectoryNode ''a'' ''/a'' 1 [] [sampleRecord ''v'' ''a'']) = 1 \<and>
   groupRecords localeCompare [sampleRecord ''u'' ''A'', sampleRecord ''v'' ''a'']
     (\<lambda>r. Some (IntentRecord.intent_category r)) Name =
   Inr (DirectoryNode ''Root'' ''/'' 2
          [DirectoryNode ''a'' ''/a'' 1 [] [sampleRecord ''v'' ''a''],
           DirectoryNode ''A'' ''/A'' 1 [] [sampleRecord ''u'' ''A'']] [])"
  by (simp add: evaluation toLowerCase_def)

section \<open>Flat grouping and the Uncategorized group\<close>

text \<open>
  When no group key is a property name of \<^verbatim>\<open>Object.prototype\<close>, \<^verbatim>\<open>groupRecords\<close>
  returns a root named \<open>Root\<close> without records whose children are named by the distinct
  group keys, each child without children and holding the records of its key.
\<close>

lemma flat_grouping:
  assumes "\<forall>r\<in>set recs. groupKey keyFn r \<notin> set objectPrototypeKeys"
  shows "\<exists>t. groupRecords lc recs keyFn sortMode = Inr t \<and>
           name t = ''Root'' \<and> records t = [] \<and>
           distinct (map name (children t)) \<and>
           set (map name (children t)) = groupKey keyFn ` set recs \<and>
           (\<forall>c\<in>set (children t). children c = [] \<and>
              mset (records c) = mset (filter (\<lambda>r. groupKey keyFn r = name c) recs))"
proof -
  from groupRecords_ok [OF assms] obtain t where t: "groupRecords lc recs keyFn sortMode = Inr t"
    by blast
  show ?thesis
    using t names_groupRecords(1,2,4,5) [OF t] children_groupRecords(1,3) [OF t] by blast
qed

text \<open>
  Under the same condition a record whose key is missing or empty is among the records
  of the child named \<open>Uncategorized\<close> and of no child of another name.
\<close>

lemma uncategorized_fallback:
  assumes ok: "\<forall>r\<in>set recs. groupKey keyFn r \<notin> set objectPrototypeKeys"
    and r: "r \<in> set recs" and falsy: "keyFn r = None \<or> keyFn r = Some []"
  shows "\<exists>t. groupRecords lc recs keyFn sortMode = Inr t \<and>
           (\<exists>c\<in>set (children t). name c = ''Uncategorized'' \<and> r \<in> set (records c)) \<and>
           (\<forall>c\<in>set (children t). r \<in> set (records c) \<longrightarrow> name c = ''Uncategorized'')"
proof -
  from groupRecords_ok [OF ok] obtain t where t: "groupRecords lc recs keyFn sortMode = Inr t"
    by blast
  have key: "groupKey keyFn r = ''Uncategorized''"
    using falsy by (auto simp: groupKey_def)
  have mem: "r \<in> set (records c) \<longleftrightarrow> groupKey keyFn r = name c" if "c \<in> set (children t)" for c
  proof -
    have "set (records c) = set (filter (\<lambda>r. groupKey keyFn r = name c) recs)"
      using children_groupRecords(3) [OF t that] by (rule mset_eq_setD)
    then show ?thesis using r by simp
  qed
  have "groupKey keyFn r \<in> groupKey keyFn ` set recs" using r by (rule imageI)
  then have "''Uncategorized'' \<in> set (map name (children t))"
    using names_groupRecords(2) [OF t] key by simp
  then obtain c where "c \<in> set (children t)" "name c = ''Uncategorized''" by auto
  then have "\<exists>c\<in>set (children t). name c = ''Uncategorized'' \<and> r \<in> set (records c)"
    using mem key by auto
  moreover have "\<forall>c\<in>set (children t). r \<in> set (records c) \<longrightarrow> name c = ''Uncategorized''"
    using mem key by auto
  ultimately show ?thesis using t by blast
qed

lemma virtualRoot_inherited:
  assumes "r \<in> set (getAllRecords (directory_tree data))"
    and "IntentRecord.intent_category r \<in> set objectPrototypeKeys"
  shows "virtualRoot lc data activeSite Intent sortMode = Inl TypeError"
proof -
  have "IntentRecord.intent_category r \<noteq> []"
    using assms(2) by (auto simp: objectPrototypeKeys_def)
  then have "groupKey (\<lambda>r. Some (IntentRecord.intent_category r)) r \<in> set objectPrototypeKeys"
    using assms(2) by (simp add: groupKey_def)
  with assms(1) show ?thesis
    by (simp add: virtualRoot_def baseRecords_def groupRecords_inherited)
qed

text \<open>
  Claim C2 at a failing input. A single record whose \<^verbatim>\<open>intent_category\<close> is
  \<open>constructor\<close> (Intent view), or whose \<^verbatim>\<open>object\<close> is \<open>toString\<close> (Media view):
  \<^verbatim>\<open>groupRecords\<close> raises a \<^verbatim>\<open>TypeError\<close> and yields no tree.
\<close>

theorem flat_grouping_inherited_key:
  "virtualRoot localeCompare
     (sampleSummary (DirectoryNode ''Root'' ''/'' 1 [] [sampleRecord ''u'' ''constructor'']))
     ''site'' Intent Name = Inl TypeError \<and>
   virtualRoot localeCompare
     (sampleSummary (DirectoryNode ''Root'' ''/'' 1 []
        [(sampleRecord ''u'' ''x'')\<lparr>object := ''toString''\<rparr>]))
     ''site'' Media Count = Inl TypeError"
  by (simp add: virtualRoot_def baseRecords_def sampleSummary_def evaluation)

text \<open>
  Claim C4 at a failing input. A record with an empty category followed by a record of
  category \<open>constructor\<close>: \<^verbatim>\<open>groupRecords\<close> raises a \<^verbatim>\<open>TypeError\<close>, so the first
  record is placed in no group. With the category \<open>x\<close> in place of \<open>constructor\<close> the
  first record is in the group \<open>Uncategorized\<close>.
\<close>

theorem uncategorized_fallback_inherited_key:
  "groupRecords localeCompare [sampleRecord ''u'' [], sampleRecord ''v'' ''constructor'']
     (\<lambda>r. Some (IntentRecord.intent_category r)) Name = Inl TypeError \<and>
   groupRecords localeCompare [sampleRecord ''u'' [], sampleRecord ''v'' ''x'']
     (\<lambda>r. Some (IntentRecord.intent_category r)) Name =
   Inr (DirectoryNode ''Root'' ''/'' 2
          [DirectoryNode ''Uncategorized'' ''/Uncategorized'' 1 [] [sampleRecord ''u'' []],
           DirectoryNode ''x'' ''/x'' 1 [] [sampleRecord ''v'' ''x'']] [])"
  by (simp add: evaluation)

end
